theory Spec2Isabelle
  imports Main "HOL-Library.Word"
begin

unbundle bit_operations_syntax

section \<open>Machine integers and byte order\<close>

type_synonym u8 = "8 word"
type_synonym u16 = "16 word"
type_synonym u32 = "32 word"
type_synonym u64 = "64 word"

text \<open>
  A \<open>__be32\<close> or \<open>__be64\<close> field is the sequence of its bytes in ascending address
  order, so that the model does not depend on the byte order of the host:
  \<open>htobe32\<close> lays the most significant byte first, \<open>be32toh\<close> reads it back.
\<close>

datatype be32 = Be32 u8 u8 u8 u8

datatype be64 = Be64 u8 u8 u8 u8 u8 u8 u8 u8

definition htobe32 :: "u32 \<Rightarrow> be32" where
  "htobe32 x =
     Be32 (ucast (drop_bit 24 x)) (ucast (drop_bit 16 x)) (ucast (drop_bit 8 x)) (ucast x)"

fun be32toh :: "be32 \<Rightarrow> u32" where
  "be32toh (Be32 a b c d) =
     push_bit 24 (ucast a) OR push_bit 16 (ucast b) OR push_bit 8 (ucast c) OR ucast d"

definition htobe64 :: "u64 \<Rightarrow> be64" where
  "htobe64 x =
     Be64 (ucast (drop_bit 56 x)) (ucast (drop_bit 48 x)) (ucast (drop_bit 40 x))
          (ucast (drop_bit 32 x)) (ucast (drop_bit 24 x)) (ucast (drop_bit 16 x))
          (ucast (drop_bit 8 x)) (ucast x)"

fun be64toh :: "be64 \<Rightarrow> u64" where
  "be64toh (Be64 a b c d e f g h) =
     push_bit 56 (ucast a) OR push_bit 48 (ucast b) OR push_bit 40 (ucast c) OR
     push_bit 32 (ucast d) OR push_bit 24 (ucast e) OR push_bit 16 (ucast f) OR
     push_bit 8 (ucast g) OR ucast h"

section \<open>Declarations of the device interface\<close>

text \<open>
  Modelled from the spec: the header \<open>infiniband/mlx5dv.h\<close> (the completion record
  \<open>struct mlx5_cqe64\<close>, its opcode constants and the two accessors
  \<open>mlx5dv_get_cqe_opcode\<close> and \<open>mlx5dv_get_cqe_owner\<close>) is not among the sources.
  The record keeps the four fields \<open>manual_poll_cq\<close> reads. The opcode values are the
  ones the comments of \<open>manual_poll_cq\<close> give (INVALID 15, REQ 0, RESP_SEND 2,
  RESP_SEND_IMM 3, RESP_WR_IMM 1, REQ_ERR 13, RESP_ERR 14); the opcode is the high
  nibble of \<open>op_own\<close> and the ownership bit its lowest bit.
\<close>

record mlx5_cqe64 =
  imm_inval_pkey :: be32
  byte_cnt :: be32
  sop_drop_qpn :: be32
  op_own :: u8

definition MLX5_CQE_REQ :: u8 where "MLX5_CQE_REQ = 0"
definition MLX5_CQE_RESP_WR_IMM :: u8 where "MLX5_CQE_RESP_WR_IMM = 1"
definition MLX5_CQE_RESP_SEND :: u8 where "MLX5_CQE_RESP_SEND = 2"
definition MLX5_CQE_RESP_SEND_IMM :: u8 where "MLX5_CQE_RESP_SEND_IMM = 3"
definition MLX5_CQE_REQ_ERR :: u8 where "MLX5_CQE_REQ_ERR = 13"
definition MLX5_CQE_RESP_ERR :: u8 where "MLX5_CQE_RESP_ERR = 14"
definition MLX5_CQE_INVALID :: u8 where "MLX5_CQE_INVALID = 15"

definition mlx5dv_get_cqe_opcode :: "mlx5_cqe64 \<Rightarrow> u8" where
  "mlx5dv_get_cqe_opcode cqe = drop_bit 4 (op_own cqe)"

definition mlx5dv_get_cqe_owner :: "mlx5_cqe64 \<Rightarrow> u8" where
  "mlx5dv_get_cqe_owner cqe = op_own cqe AND 1"

text \<open>
  Modelled from the spec: the work-request opcodes \<open>MLX5_OPCODE_*\<close> of
  \<open>infiniband/mlx5dv.h\<close>, which is not among the sources; the values are those of the
  mlx5 device interface. They are compared with the high 8 bits of \<open>sop_drop_qpn\<close>.
\<close>

definition MLX5_OPCODE_SEND_INVAL :: u32 where "MLX5_OPCODE_SEND_INVAL = 0x01"
definition MLX5_OPCODE_RDMA_WRITE :: u32 where "MLX5_OPCODE_RDMA_WRITE = 0x08"
definition MLX5_OPCODE_RDMA_WRITE_IMM :: u32 where "MLX5_OPCODE_RDMA_WRITE_IMM = 0x09"
definition MLX5_OPCODE_SEND :: u32 where "MLX5_OPCODE_SEND = 0x0a"
definition MLX5_OPCODE_SEND_IMM :: u32 where "MLX5_OPCODE_SEND_IMM = 0x0b"
definition MLX5_OPCODE_RDMA_READ :: u32 where "MLX5_OPCODE_RDMA_READ = 0x10"

text \<open>
  Modelled from the spec: \<open>struct ibv_wc\<close> and its enumerations are declared in
  \<open>verbs.h\<close>, which is not among the sources. The enumerations are datatypes with the
  constants the program names; \<open>wc_flags\<close> is the set of flag bits that are set. The
  all-zero structure left by \<open>memset\<close> has status \<open>IBV_WC_SUCCESS\<close> and opcode
  \<open>IBV_WC_SEND\<close> (the program's own log prints status 0x0 for a good completion and
  opcode 0 for SEND) and no flag.
\<close>

datatype ibv_wc_status = IBV_WC_SUCCESS | IBV_WC_GENERAL_ERR

datatype ibv_wc_opcode =
  IBV_WC_SEND | IBV_WC_RDMA_WRITE | IBV_WC_RDMA_READ | IBV_WC_RECV | IBV_WC_RECV_RDMA_WITH_IMM

datatype ibv_wc_flags = IBV_WC_GRH | IBV_WC_WITH_IMM

record ibv_wc =
  status :: ibv_wc_status
  opcode :: ibv_wc_opcode
  vendor_err :: u32
  byte_len :: u32
  imm_data :: u32
  qp_num :: u32
  wc_flags :: "ibv_wc_flags set"

definition wc_zero :: ibv_wc where
  "wc_zero = \<lparr>status = IBV_WC_SUCCESS, opcode = IBV_WC_SEND, vendor_err = 0, byte_len = 0,
              imm_data = 0, qp_num = 0, wc_flags = {}\<rparr>"

section \<open>Resources and memory\<close>

text \<open>
  \<open>struct mlx5dv_cq\<close> and \<open>struct mlx5dv_qp\<close> with the members the program uses
  (\<open>sq.buf\<close> is \<open>sq_buf\<close>, \<open>bf.reg\<close> is \<open>bf_reg\<close>, and so on); pointers are
  64-bit addresses.
\<close>

record mlx5dv_cq =
  cq_buf :: u64
  dbrec :: u64
  cqe_cnt :: u32
  cqe_size :: u32

record mlx5dv_qp =
  sq_buf :: u64
  sq_wqe_cnt :: u32
  sq_stride :: u32
  bf_reg :: u64
  bf_size :: u32

text \<open>
  \<open>struct resources\<close>: \<open>qpn\<close> is \<open>res->qp->qp_num\<close>, \<open>mr_lkey\<close> and \<open>mr_rkey\<close>
  are \<open>res->mr->lkey\<close> and \<open>res->mr->rkey\<close>, \<open>buf\<close> is the address of the message
  buffer.
\<close>

record resources =
  buf :: u64
  qpn :: u32
  mr_lkey :: u32
  mr_rkey :: u32
  mlx5dv_qp :: mlx5dv_qp
  mlx5dv_cq :: mlx5dv_cq
  sq_cur_post :: u32
  cq_cons_index :: u32
  bf_offset :: u32

text \<open>The three segments of a work descriptor, as \<open>local_write\<close> fills them.\<close>

record mlx5_wqe_ctrl_seg =
  opmod_idx_opcode :: be32
  qpn_ds :: be32
  signature :: u8
  fm_ce_se :: u8
  imm :: u32

record mlx5_wqe_raddr_seg =
  raddr :: be64
  rkey :: be32
  reserved :: be32

record mlx5_wqe_data_seg =
  byte_count :: be32
  lkey :: be32
  addr :: be64

text \<open>
  Every store the program makes to memory it shares with the device, in program order:
  the doorbell record of the completion queue, the three segments of a descriptor, and the
  8-byte store to the trigger (BlueFlame) register, whose value is the first two fields
  of the control segment.
\<close>

datatype mem_write =
  W_dbrec u64 be32
| W_ctrl u64 mlx5_wqe_ctrl_seg
| W_raddr u64 mlx5_wqe_raddr_seg
| W_data u64 mlx5_wqe_data_seg
| W_bf u64 be32 be32

text \<open>
  The state: the resources, the completion ring as the device has written it (the
  \<open>mlx5_cqe64\<close> found at each address) and the stores made so far.
\<close>

record machine =
  res :: resources
  cq_mem :: "u64 \<Rightarrow> mlx5_cqe64"
  writes :: "mem_write list"

section \<open>The completion reader: \<open>manual_poll_cq\<close>\<close>

definition MLX5_CQ_SET_CI :: u64 where "MLX5_CQ_SET_CI = 0"

text \<open>Step 1: \<open>cqe_idx\<close> and the address \<open>cqe\<close> of the slot (a 32-bit product).\<close>

definition cqe_idx :: "resources \<Rightarrow> u32" where
  "cqe_idx r = cq_cons_index r AND (cqe_cnt (mlx5dv_cq r) - 1)"

definition cqe :: "resources \<Rightarrow> u64" where
  "cqe r = cq_buf (mlx5dv_cq r) + ucast (cqe_idx r * cqe_size (mlx5dv_cq r))"

text \<open>Step 2: the address \<open>cqe64\<close> of the completion record inside the slot.\<close>

definition cqe64 :: "resources \<Rightarrow> u64" where
  "cqe64 r = (if cqe_size (mlx5dv_cq r) = 64 then cqe r else cqe r + 64)"

text \<open>Step 4: \<open>!!(cq_cons_index & cqe_cnt)\<close>.\<close>

definition expected_owner :: "u32 \<Rightarrow> u32 \<Rightarrow> u8" where
  "expected_owner cons_index cnt = (if cons_index AND cnt \<noteq> 0 then 1 else 0)"

text \<open>Step 7, the inner switch on the work-request opcode of a request completion.\<close>

definition wc_of_req :: "u32 \<Rightarrow> ibv_wc \<Rightarrow> ibv_wc" where
  "wc_of_req sop wc =
     (let sub = drop_bit 24 sop in
      if sub = MLX5_OPCODE_RDMA_WRITE \<or> sub = MLX5_OPCODE_RDMA_WRITE_IMM then
        (let wc1 = wc\<lparr>opcode := IBV_WC_RDMA_WRITE\<rparr> in
         if sub = MLX5_OPCODE_RDMA_WRITE_IMM
         then wc1\<lparr>wc_flags := insert IBV_WC_WITH_IMM (wc_flags wc1)\<rparr> else wc1)
      else if sub = MLX5_OPCODE_SEND \<or> sub = MLX5_OPCODE_SEND_IMM
              \<or> sub = MLX5_OPCODE_SEND_INVAL then
        (let wc1 = wc\<lparr>opcode := IBV_WC_SEND\<rparr> in
         if sub = MLX5_OPCODE_SEND_IMM
         then wc1\<lparr>wc_flags := insert IBV_WC_WITH_IMM (wc_flags wc1)\<rparr> else wc1)
      else if sub = MLX5_OPCODE_RDMA_READ then wc\<lparr>opcode := IBV_WC_RDMA_READ\<rparr>
      else wc\<lparr>opcode := IBV_WC_SEND\<rparr>)"

text \<open>Step 7, the outer switch; \<open>None\<close> is the \<open>default: return 0\<close>.\<close>

definition wc_of_cqe :: "u8 \<Rightarrow> mlx5_cqe64 \<Rightarrow> ibv_wc \<Rightarrow> ibv_wc option" where
  "wc_of_cqe opc c wc =
     (if opc = MLX5_CQE_REQ then
        Some ((wc_of_req (be32toh (sop_drop_qpn c)) wc)\<lparr>status := IBV_WC_SUCCESS\<rparr>)
      else if opc = MLX5_CQE_RESP_SEND then
        Some (wc\<lparr>opcode := IBV_WC_RECV, status := IBV_WC_SUCCESS\<rparr>)
      else if opc = MLX5_CQE_RESP_SEND_IMM then
        Some (wc\<lparr>opcode := IBV_WC_RECV,
                  wc_flags := insert IBV_WC_WITH_IMM (wc_flags wc),
                  imm_data := be32toh (imm_inval_pkey c),
                  status := IBV_WC_SUCCESS\<rparr>)
      else if opc = MLX5_CQE_RESP_WR_IMM then
        Some (wc\<lparr>opcode := IBV_WC_RECV_RDMA_WITH_IMM,
                  wc_flags := insert IBV_WC_WITH_IMM (wc_flags wc),
                  imm_data := be32toh (imm_inval_pkey c),
                  status := IBV_WC_SUCCESS\<rparr>)
      else if opc = MLX5_CQE_REQ_ERR \<or> opc = MLX5_CQE_RESP_ERR then
        Some (wc\<lparr>status := IBV_WC_GENERAL_ERR\<rparr>)
      else None)"

text \<open>
  \<open>manual_poll_cq\<close>: the return value, the state and the caller's \<open>wc\<close> afterwards.
  Steps 8 and 9 increment the consumer index and store its low 24 bits, big-endian, to
  \<open>dbrec[MLX5_CQ_SET_CI]\<close>.
\<close>

definition manual_poll_cq :: "machine \<Rightarrow> ibv_wc \<Rightarrow> int \<times> machine \<times> ibv_wc" where
  "manual_poll_cq m wc =
     (let r = res m;
          c = cq_mem m (cqe64 r);
          opc = mlx5dv_get_cqe_opcode c
      in if opc = MLX5_CQE_INVALID then (0, m, wc)
         else if mlx5dv_get_cqe_owner c
                 \<noteq> expected_owner (cq_cons_index r) (cqe_cnt (mlx5dv_cq r))
         then (0, m, wc)
         else
           (let wc1 = wc_zero\<lparr>qp_num := be32toh (sop_drop_qpn c) AND 0xffffff,
                             byte_len := be32toh (byte_cnt c)\<rparr>
            in case wc_of_cqe opc c wc1 of
                 None \<Rightarrow> (0, m, wc1)
               | Some wc2 \<Rightarrow>
                   (let ci = cq_cons_index r + 1
                    in (1,
                        m\<lparr>res := r\<lparr>cq_cons_index := ci\<rparr>,
                          writes := writes m @
                            [W_dbrec (dbrec (mlx5dv_cq r) + 4 * MLX5_CQ_SET_CI)
                                     (htobe32 (ci AND 0xffffff))]\<rparr>,
                        wc2))))"

section \<open>The send-ring poster: \<open>local_write\<close>\<close>

text \<open>
  Modelled from the spec: \<open>infiniband/mlx5dv.h\<close> is not among the sources, so the sizes
  of the three segment structures (16 bytes each), the flag \<open>MLX5_WQE_CTRL_CQ_UPDATE\<close>
  and the two setters \<open>mlx5dv_set_ctrl_seg\<close> and \<open>mlx5dv_set_data_seg\<close> follow the
  mlx5 device interface: the control segment carries the producer index (16 bits) and the
  opcode in \<open>opmod_idx_opcode\<close>, the queue number and the descriptor size \<open>ds\<close> (in
  16-byte units, low 8 bits) in \<open>qpn_ds\<close>, and the completion-request flag in
  \<open>fm_ce_se\<close>; the data segment carries length, key and address, all big-endian.
\<close>

definition sizeof_ctrl_seg :: u64 where "sizeof_ctrl_seg = 16"
definition sizeof_raddr_seg :: u64 where "sizeof_raddr_seg = 16"
definition sizeof_data_seg :: u64 where "sizeof_data_seg = 16"

definition MLX5_WQE_CTRL_CQ_UPDATE :: u8 where "MLX5_WQE_CTRL_CQ_UPDATE = 8"

definition mlx5dv_set_ctrl_seg ::
    "u16 \<Rightarrow> u8 \<Rightarrow> u8 \<Rightarrow> u32 \<Rightarrow> u8 \<Rightarrow> u8 \<Rightarrow> u8 \<Rightarrow> u32 \<Rightarrow> mlx5_wqe_ctrl_seg" where
  "mlx5dv_set_ctrl_seg pi opc opmod qp_n fm ds sig im =
     \<lparr>opmod_idx_opcode =
        htobe32 (push_bit 24 (ucast opmod) OR push_bit 8 (ucast pi) OR ucast opc),
      qpn_ds = htobe32 (push_bit 8 qp_n OR ucast ds),
      signature = sig,
      fm_ce_se = fm,
      imm = im\<rparr>"

definition mlx5dv_set_data_seg :: "u32 \<Rightarrow> u32 \<Rightarrow> u64 \<Rightarrow> mlx5_wqe_data_seg" where
  "mlx5dv_set_data_seg len key address =
     \<lparr>byte_count = htobe32 len, lkey = htobe32 key, addr = htobe64 address\<rparr>"

text \<open>
  The two ways \<open>local_write\<close> ends before it posts: the BlueFlame check returns -1, and
  \<open>sq_cur_post % wqe_cnt\<close> with a zero \<open>wqe_cnt\<close> is a division by zero.
\<close>

datatype post_error = NoBlueflame | DivisionByZero

text \<open>\<open>wqe_idx\<close> and the address \<open>wqe\<close> of the send-ring slot.\<close>

definition wqe_idx :: "resources \<Rightarrow> u32" where
  "wqe_idx r = sq_cur_post r mod sq_wqe_cnt (mlx5dv_qp r)"

definition wqe :: "resources \<Rightarrow> u64" where
  "wqe r = sq_buf (mlx5dv_qp r) + ucast (wqe_idx r * sq_stride (mlx5dv_qp r))"

text \<open>
  \<open>local_write\<close> from its start to the update of \<open>bf_offset\<close>: the three segments are
  written at \<open>wqe\<close>, then the first 8 bytes of the control segment are stored at
  \<open>bf.reg + bf_offset\<close>, then \<open>sq_cur_post\<close> is incremented and \<open>bf_offset\<close> is
  flipped. The payload bytes of \<open>res->buf\<close> and the log output are not part of the
  state. The remote address is \<open>buf + 4\<close>, the local address \<open>buf\<close>, the length 4.
\<close>

definition local_write_post :: "machine \<Rightarrow> post_error + machine" where
  "local_write_post m =
     (let r = res m;
          qp = mlx5dv_qp r;
          remote_addr = buf r + 4;
          data_addr = buf r;
          data_length = 4
      in if bf_reg qp = 0 \<or> bf_size qp = 0 then Inl NoBlueflame
         else if sq_wqe_cnt qp = 0 then Inl DivisionByZero
         else
           (let pi = (ucast (sq_cur_post r AND 0xffff) :: u16);
                ctrl = wqe r;
                raddr_p = ctrl + sizeof_ctrl_seg;
                data = raddr_p + sizeof_raddr_seg;
                ds = (ucast ((sizeof_ctrl_seg + sizeof_raddr_seg + sizeof_data_seg) div 16)
                       :: u8);
                ctrl_seg = mlx5dv_set_ctrl_seg pi (ucast MLX5_OPCODE_RDMA_WRITE) 0 (qpn r)
                             MLX5_WQE_CTRL_CQ_UPDATE ds 0 0;
                raddr_seg = \<lparr>raddr = htobe64 remote_addr, rkey = htobe32 (mr_rkey r),
                             reserved = htobe32 0\<rparr>;
                data_seg = mlx5dv_set_data_seg data_length (mr_lkey r) data_addr;
                bf_addr = bf_reg qp + ucast (bf_offset r)
            in Inr (m\<lparr>res := r\<lparr>sq_cur_post := sq_cur_post r + 1,
                                bf_offset := bf_offset r XOR bf_size qp\<rparr>,
                       writes := writes m @
                         [W_ctrl ctrl ctrl_seg, W_raddr raddr_p raddr_seg, W_data data data_seg,
                          W_bf bf_addr (opmod_idx_opcode ctrl_seg) (qpn_ds ctrl_seg)]\<rparr>)))"

text \<open>
  \<open>poll_completion\<close>: the loop calls \<open>manual_poll_cq\<close> until it returns non-zero or
  5000 ms have passed. What the loop sees comes from outside the program: \<open>env i\<close> is the
  completion ring as the device has left it when the \<open>i\<close>-th call starts, and the
  clock (in ms) read after that call; \<open>start\<close> is the clock read before the loop and
  \<open>wc\<close> the uninitialised local. The loop need not end (a clock that stands still and
  a ring that stays empty), so not returning is \<open>None\<close>.
\<close>

definition MAX_POLL_CQ_TIMEOUT :: u64 where "MAX_POLL_CQ_TIMEOUT = 5000"

partial_function (option) poll_loop ::
    "(nat \<Rightarrow> (u64 \<Rightarrow> mlx5_cqe64) \<times> u64) \<Rightarrow> u64 \<Rightarrow> nat \<Rightarrow> machine \<Rightarrow> ibv_wc
       \<Rightarrow> (int \<times> machine \<times> ibv_wc) option" where
  "poll_loop env start i m wc =
     (case manual_poll_cq (m\<lparr>cq_mem := fst (env i)\<rparr>) wc of
        (poll_result, m1, wc1) \<Rightarrow>
          if poll_result = 0 \<and> snd (env i) - start < MAX_POLL_CQ_TIMEOUT
          then poll_loop env start (Suc i) m1 wc1
          else Some (poll_result, m1, wc1))"

definition poll_completion ::
    "(nat \<Rightarrow> (u64 \<Rightarrow> mlx5_cqe64) \<times> u64) \<Rightarrow> u64 \<Rightarrow> ibv_wc \<Rightarrow> machine
       \<Rightarrow> (int \<times> machine) option" where
  "poll_completion env start wc m =
     (case poll_loop env start 0 m wc of
        None \<Rightarrow> None
      | Some (poll_result, m1, wc1) \<Rightarrow>
          Some (if poll_result < 0 then 1
                else if poll_result = 0 then 1
                else if status wc1 \<noteq> IBV_WC_SUCCESS then 1
                else 0, m1))"

text \<open>\<open>local_write\<close> as a whole: the post, then \<open>poll_completion\<close>.\<close>

definition local_write ::
    "(nat \<Rightarrow> (u64 \<Rightarrow> mlx5_cqe64) \<times> u64) \<Rightarrow> u64 \<Rightarrow> ibv_wc \<Rightarrow> machine
       \<Rightarrow> (post_error + int \<times> machine) option" where
  "local_write env start wc m =
     (case local_write_post m of
        Inl e \<Rightarrow> Some (Inl e)
      | Inr m1 \<Rightarrow>
          (case poll_completion env start wc m1 of
             None \<Rightarrow> None
           | Some (rc, m2) \<Rightarrow> Some (Inr (if rc \<noteq> 0 then - 1 else 0, m2))))"

section \<open>Notions used in the statements\<close>

text \<open>A ring size is a power of two that fits the 32-bit counter.\<close>

definition is_pow2 :: "u32 \<Rightarrow> bool" where
  "is_pow2 n = (n \<in> set (map (\<lambda>k. 2 ^ k) [0..<32]))"

text \<open>The opcodes with a case label in the outer switch, and in the inner one.\<close>

definition known_cqe_opcode :: "u8 \<Rightarrow> bool" where
  "known_cqe_opcode opc =
     (opc \<in> set [MLX5_CQE_REQ, MLX5_CQE_RESP_SEND, MLX5_CQE_RESP_SEND_IMM,
                 MLX5_CQE_RESP_WR_IMM, MLX5_CQE_REQ_ERR, MLX5_CQE_RESP_ERR])"

definition known_wr_opcode :: "u32 \<Rightarrow> bool" where
  "known_wr_opcode sub =
     (sub \<in> set [MLX5_OPCODE_RDMA_WRITE, MLX5_OPCODE_RDMA_WRITE_IMM, MLX5_OPCODE_SEND,
                 MLX5_OPCODE_SEND_IMM, MLX5_OPCODE_SEND_INVAL, MLX5_OPCODE_RDMA_READ])"

text \<open>
  The record the reader looks at, and the two checks that make it consumable: the opcode
  is not the invalid sentinel and the ownership bit has the expected polarity.
\<close>

definition cqe_at :: "machine \<Rightarrow> mlx5_cqe64" where
  "cqe_at m = cq_mem m (cqe64 (res m))"

definition consumable :: "machine \<Rightarrow> bool" where
  "consumable m =
     (mlx5dv_get_cqe_opcode (cqe_at m) \<noteq> MLX5_CQE_INVALID \<and>
      mlx5dv_get_cqe_owner (cqe_at m)
        = expected_owner (cq_cons_index (res m)) (cqe_cnt (mlx5dv_cq (res m))))"

text \<open>The state after one record has been consumed.\<close>

definition consumed :: "machine \<Rightarrow> machine" where
  "consumed m =
     m\<lparr>res := (res m)\<lparr>cq_cons_index := cq_cons_index (res m) + 1\<rparr>,
       writes := writes m @
         [W_dbrec (dbrec (mlx5dv_cq (res m)) + 4 * MLX5_CQ_SET_CI)
                  (htobe32 ((cq_cons_index (res m) + 1) AND 0xffffff))]\<rparr>"

section \<open>An example configuration\<close>

text \<open>
  A ring of four 64-byte completion entries, as in the walk-through in the comments of
  \<open>manual_poll_cq\<close>, a send ring of four 64-byte slots and a 256-byte trigger region;
  the indices and \<open>bf_offset\<close> start at 0, as \<open>resources_create\<close> leaves them.
\<close>

definition demo_cq :: mlx5dv_cq where
  "demo_cq = \<lparr>cq_buf = 0x10000, dbrec = 0x20000, cqe_cnt = 4, cqe_size = 64\<rparr>"

definition demo_qp :: mlx5dv_qp where
  "demo_qp = \<lparr>sq_buf = 0x30000, sq_wqe_cnt = 4, sq_stride = 64, bf_reg = 0x40000,
              bf_size = 256\<rparr>"

definition demo_res :: resources where
  "demo_res = \<lparr>buf = 0x50000, qpn = 0x1d2, mr_lkey = 0x1234, mr_rkey = 0x5678,
               mlx5dv_qp = demo_qp, mlx5dv_cq = demo_cq,
               sq_cur_post = 0, cq_cons_index = 0, bf_offset = 0\<rparr>"

text \<open>
  A completion record with the given \<open>op_own\<close> byte, queue field, byte count and
  immediate, and the example state whose ring holds that record in every slot.
\<close>

definition mk_cqe :: "u8 \<Rightarrow> u32 \<Rightarrow> u32 \<Rightarrow> u32 \<Rightarrow> mlx5_cqe64" where
  "mk_cqe oo sop cnt im =
     \<lparr>imm_inval_pkey = htobe32 im, byte_cnt = htobe32 cnt, sop_drop_qpn = htobe32 sop,
      op_own = oo\<rparr>"

definition demo_machine :: "mlx5_cqe64 \<Rightarrow> machine" where
  "demo_machine c = \<lparr>res = demo_res, cq_mem = (\<lambda>a. c), writes = []\<rparr>"

section \<open>Runs of posts and polls\<close>

text \<open>The addresses of the trigger stores of a trace, in program order.\<close>

fun bf_addrs :: "mem_write list \<Rightarrow> u64 list" where
  "bf_addrs [] = []"
| "bf_addrs (W_bf a x y # ws) = a # bf_addrs ws"
| "bf_addrs (w # ws) = bf_addrs ws"

text \<open>
  What \<open>main\<close> does with the queue pair is a sequence of posts (\<open>local_write\<close>) and of
  polls (\<open>manual_poll_cq\<close>, called by \<open>poll_completion\<close>), the device rewriting the
  completion ring before each poll. A post that fails ends the run, as \<open>main\<close> stops at
  the first \<open>local_write\<close> that fails.
\<close>

datatype step = Post | Poll "u64 \<Rightarrow> mlx5_cqe64" ibv_wc

fun run :: "step list \<Rightarrow> machine \<Rightarrow> post_error + machine" where
  "run [] m = Inr m"
| "run (Post # ss) m = (case local_write_post m of Inl e \<Rightarrow> Inl e | Inr m' \<Rightarrow> run ss m')"
| "run (Poll cq wc # ss) m = run ss (fst (snd (manual_poll_cq (m\<lparr>cq_mem := cq\<rparr>) wc)))"

fun posts :: "step list \<Rightarrow> nat" where
  "posts [] = 0"
| "posts (Post # ss) = Suc (posts ss)"
| "posts (Poll cq wc # ss) = posts ss"

text \<open>
  The two trigger addresses: \<open>bf.reg\<close> for the posts numbered 0, 2, 4, ... and
  \<open>bf.reg + bf.size\<close> for the others.
\<close>

definition trigger_addr :: "resources \<Rightarrow> nat \<Rightarrow> u64" where
  "trigger_addr r i =
     bf_reg (mlx5dv_qp r) + (if even i then 0 else ucast (bf_size (mlx5dv_qp r)))"

text \<open>The invariant of a run after \<open>n\<close> posts.\<close>

definition alternating :: "resources \<Rightarrow> machine \<Rightarrow> nat \<Rightarrow> bool" where
  "alternating r0 m n =
     (mlx5dv_qp (res m) = mlx5dv_qp r0
      \<and> bf_addrs (writes m) = map (trigger_addr r0) [0..<n]
      \<and> bf_offset (res m) = (if even n then 0 else bf_size (mlx5dv_qp r0)))"

text \<open>The example state with 128-byte completion entries, at consumer index 5.\<close>

definition demo_machine128 :: "mlx5_cqe64 \<Rightarrow> machine" where
  "demo_machine128 c =
     \<lparr>res = demo_res\<lparr>mlx5dv_cq := demo_cq\<lparr>cqe_size := 128\<rparr>, cq_cons_index := 5\<rparr>,
      cq_mem = (\<lambda>a. if a = 0x100c0 then c else mk_cqe 0xf0 0 0 0), writes = []\<rparr>"

section \<open>Byte order round trips\<close>

lemma be32toh_htobe32: "be32toh (htobe32 x) = x"
  unfolding htobe32_def be32toh.simps
  apply (rule bit_word_eqI)
  subgoal for n
    apply (cases "n < 8"; cases "n < 16"; cases "n < 24")
           apply (auto simp add: bit_simps)
    done
  done

section \<open>Helper lemmas\<close>

lemmas cqe_opcode_defs =
  MLX5_CQE_REQ_def MLX5_CQE_RESP_WR_IMM_def MLX5_CQE_RESP_SEND_def
  MLX5_CQE_RESP_SEND_IMM_def MLX5_CQE_REQ_ERR_def MLX5_CQE_RESP_ERR_def MLX5_CQE_INVALID_def

lemmas wr_opcode_defs =
  MLX5_OPCODE_SEND_INVAL_def MLX5_OPCODE_RDMA_WRITE_def MLX5_OPCODE_RDMA_WRITE_IMM_def
  MLX5_OPCODE_SEND_def MLX5_OPCODE_SEND_IMM_def MLX5_OPCODE_RDMA_READ_def

lemmas demo_defs = demo_cq_def demo_qp_def demo_res_def mk_cqe_def demo_machine_def

lemmas poll_eval_defs =
  manual_poll_cq_def cqe_at_def consumable_def cqe64_def cqe_def cqe_idx_def
  expected_owner_def wc_of_cqe_def wc_of_req_def mlx5dv_get_cqe_opcode_def
  mlx5dv_get_cqe_owner_def wc_zero_def MLX5_CQ_SET_CI_def htobe32_def
  known_cqe_opcode_def known_wr_opcode_def cqe_opcode_defs wr_opcode_defs Let_def

lemma is_pow2D: "is_pow2 n \<Longrightarrow> \<exists>k<32. n = 2 ^ k"
  unfolding is_pow2_def by auto

lemma is_pow2_exp: "k < 32 \<Longrightarrow> is_pow2 (2 ^ k)"
  by (simp add: is_pow2_def)

lemma unat_pow2_32:
  assumes "k < 32"
  shows "unat ((2::u32) ^ k) = 2 ^ k"
proof -
  have lt: "(2::nat) ^ k < 2 ^ 32"
    by (rule power_strict_increasing) (use assms in simp_all)
  have "unat (of_nat (2 ^ k) :: u32) = 2 ^ k mod 2 ^ LENGTH(32)"
    by (rule unat_of_nat)
  also have "\<dots> = 2 ^ k" using lt by simp
  finally show ?thesis by simp
qed

lemma bit_unat_div: "bit (x::u32) k = odd (unat x div 2 ^ k)"
proof -
  have "bit x k = bit (unat x) k" by (simp add: bit_unsigned_iff)
  also have "\<dots> = odd (unat x div 2 ^ k)" by (simp add: bit_iff_odd)
  finally show ?thesis .
qed

lemma and_pow2_parity:
  assumes "k < 32"
  shows "((idx::u32) AND 2 ^ k \<noteq> 0) = ((unat idx div unat ((2::u32) ^ k)) mod 2 = 1)"
proof -
  have "(idx AND 2 ^ k \<noteq> 0) = bit idx k"
    using assms by (simp add: and_exp_eq_0_iff_not_bit)
  also have "\<dots> = odd (unat idx div 2 ^ k)" by (rule bit_unat_div)
  also have "\<dots> = ((unat idx div unat ((2::u32) ^ k)) mod 2 = 1)"
    using assms by (simp add: odd_iff_mod_2_eq_one unat_pow2_32)
  finally show ?thesis .
qed

lemma pow2_pos_32:
  assumes "k < 32"
  shows "0 < (2::u32) ^ k"
proof -
  have "(2::u32) ^ k \<noteq> 0"
  proof
    assume "(2::u32) ^ k = 0"
    then have "unat ((2::u32) ^ k) = unat (0::u32)" by (rule arg_cong)
    with unat_pow2_32 [OF assms] show False by simp
  qed
  then show ?thesis by (simp add: word_greater_zero_iff)
qed

lemma mask_is_mod:
  assumes "is_pow2 n"
  shows "(x::u32) AND (n - 1) = x mod n"
proof -
  from assms obtain k where k: "k < 32" "n = 2 ^ k" by (auto dest: is_pow2D)
  show ?thesis unfolding k(2)
    using word_mod_2p_is_mask [OF pow2_pos_32 [OF k(1)], of x]
    by (simp add: mask_eq_exp_minus_1)
qed

lemma is_pow2_nonzero: "is_pow2 n \<Longrightarrow> n \<noteq> 0"
  using pow2_pos_32 by (auto dest!: is_pow2D)

lemma wc_of_cqe_None: "(wc_of_cqe opc c wc = None) = (\<not> known_cqe_opcode opc)"
  by (simp add: wc_of_cqe_def known_cqe_opcode_def)

lemma wc_of_cqe_Some_known: "wc_of_cqe opc c wc = Some w \<Longrightarrow> known_cqe_opcode opc"
  using wc_of_cqe_None [of opc c wc] by auto

lemma wc_of_req_default:
  "\<not> known_wr_opcode (drop_bit 24 sop) \<Longrightarrow> wc_of_req sop wc = wc\<lparr>opcode := IBV_WC_SEND\<rparr>"
  by (simp add: wc_of_req_def known_wr_opcode_def Let_def)

lemma wc_of_cqe_err:
  "opc = MLX5_CQE_REQ_ERR \<or> opc = MLX5_CQE_RESP_ERR \<Longrightarrow>
   wc_of_cqe opc c wc = Some (wc\<lparr>status := IBV_WC_GENERAL_ERR\<rparr>)"
  by (auto simp add: wc_of_cqe_def cqe_opcode_defs)

lemma manual_poll_cq_consume:
  assumes "consumable m"
    and "wc_of_cqe (mlx5dv_get_cqe_opcode (cqe_at m)) (cqe_at m)
           (wc_zero\<lparr>qp_num := be32toh (sop_drop_qpn (cqe_at m)) AND 0xffffff,
                    byte_len := be32toh (byte_cnt (cqe_at m))\<rparr>) = Some w"
  shows "manual_poll_cq m wc = (1, consumed m, w)"
  using assms
  by (simp add: manual_poll_cq_def consumable_def cqe_at_def consumed_def Let_def)

lemma htobe32_low24:
  "htobe32 (x AND 0xffffff) = Be32 0 (ucast (drop_bit 16 x)) (ucast (drop_bit 8 x)) (ucast x)"
proof -
  have m: "(0xffffff :: u32) = mask 24" by (simp add: mask_eq_exp_minus_1)
  have "(ucast (drop_bit 24 (x AND mask 24)) :: u8) = 0"
    by (rule bit_word_eqI) (auto simp add: bit_simps)
  moreover have "(ucast (drop_bit 16 (x AND mask 24)) :: u8) = ucast (drop_bit 16 x)"
    by (rule bit_word_eqI) (auto simp add: bit_simps)
  moreover have "(ucast (drop_bit 8 (x AND mask 24)) :: u8) = ucast (drop_bit 8 x)"
    by (rule bit_word_eqI) (auto simp add: bit_simps)
  moreover have "(ucast (x AND mask 24) :: u8) = ucast x"
    by (rule bit_word_eqI) (auto simp add: bit_simps)
  ultimately show ?thesis unfolding m htobe32_def by simp
qed

section \<open>The polling loop\<close>

text \<open>
  The loop of \<open>poll_completion\<close> ends at the first call that returns non-zero or that
  finds the time used up; when the first record is already there, \<open>poll_completion\<close>
  returns after consuming it.
\<close>

lemma poll_loop_returns:
  assumes "fst (manual_poll_cq (m\<lparr>cq_mem := fst (env i)\<rparr>) wc) \<noteq> 0
           \<or> \<not> snd (env i) - start < MAX_POLL_CQ_TIMEOUT"
  shows "poll_loop env start i m wc = Some (manual_poll_cq (m\<lparr>cq_mem := fst (env i)\<rparr>) wc)"
  using assms by (subst poll_loop.simps) (auto split: prod.splits)

lemma poll_completion_found:
  assumes "consumable (m\<lparr>cq_mem := fst (env 0)\<rparr>)"
    and "known_cqe_opcode (mlx5dv_get_cqe_opcode (cqe_at (m\<lparr>cq_mem := fst (env 0)\<rparr>)))"
  shows "\<exists>rc. poll_completion env start wc m
               = Some (rc, consumed (m\<lparr>cq_mem := fst (env 0)\<rparr>))"
proof -
  let ?m = "m\<lparr>cq_mem := fst (env 0)\<rparr>"
  from assms(2) obtain w where
    "wc_of_cqe (mlx5dv_get_cqe_opcode (cqe_at ?m)) (cqe_at ?m)
       (wc_zero\<lparr>qp_num := be32toh (sop_drop_qpn (cqe_at ?m)) AND 0xffffff,
                byte_len := be32toh (byte_cnt (cqe_at ?m))\<rparr>) = Some w"
    using wc_of_cqe_None by (metis option.exhaust)
  with assms(1) have p: "manual_poll_cq ?m wc = (1, consumed ?m, w)"
    by (rule manual_poll_cq_consume)
  then have "poll_loop env start 0 m wc = Some (1, consumed ?m, w)"
    using poll_loop_returns [where m = m and env = env and i = 0 and wc = wc and start = start]
    by simp
  then show ?thesis by (simp add: poll_completion_def)
qed

section \<open>The expected ownership value\<close>

text \<open>
  Claim C1. For every 32-bit consumer index and every power-of-two entry count, the
  expected ownership value of the reader, \<open>!!(index & entry_count)\<close>, is the parity of
  the lap, \<open>floor(index / entry_count) mod 2\<close>; the single-bit test is non-zero exactly
  when that parity is 1.
\<close>

theorem expected_owner_lap_parity:
  assumes "is_pow2 cnt"
  shows "unat (expected_owner idx cnt) = (unat idx div unat cnt) mod 2
         \<and> ((idx AND cnt \<noteq> 0) = ((unat idx div unat cnt) mod 2 = 1))"
proof -
  from assms obtain k where k: "k < 32" "cnt = 2 ^ k" by (auto dest: is_pow2D)
  have p: "(idx AND cnt \<noteq> 0) = ((unat idx div unat cnt) mod 2 = 1)"
    unfolding k(2) by (rule and_pow2_parity [OF k(1)])
  show ?thesis
  proof (cases "idx AND cnt \<noteq> 0")
    case True
    with p show ?thesis by (simp add: expected_owner_def)
  next
    case False
    with p have "(unat idx div unat cnt) mod 2 = 0" by presburger
    with False p show ?thesis by (simp add: expected_owner_def)
  qed
qed

theorem expected_owner_lap_parity_witness:
  "is_pow2 4 \<and> unat (expected_owner 5 4) = (unat (5::u32) div unat (4::u32)) mod 2
   \<and> (((5::u32) AND 4 \<noteq> 0) = ((unat (5::u32) div unat (4::u32)) mod 2 = 1))"
proof -
  have h: "is_pow2 4" using is_pow2_exp [of 2] by simp
  from expected_owner_lap_parity [OF h, of 5] h show ?thesis by simp
qed

section \<open>Polls that find no completion\<close>

text \<open>
  Claim C2. \<open>manual_poll_cq\<close> returns 0 exactly when the opcode of the slot is the
  invalid sentinel, or the ownership bit differs from the expected polarity, or the opcode
  has no case in the switch; and whenever it returns 0 the state is the one before the
  call: the consumer index is unchanged and nothing is stored to the doorbell record.
\<close>

theorem manual_poll_cq_empty:
  "((fst (manual_poll_cq m wc) = 0) =
      (mlx5dv_get_cqe_opcode (cqe_at m) = MLX5_CQE_INVALID
       \<or> mlx5dv_get_cqe_owner (cqe_at m)
           \<noteq> expected_owner (cq_cons_index (res m)) (cqe_cnt (mlx5dv_cq (res m)))
       \<or> \<not> known_cqe_opcode (mlx5dv_get_cqe_opcode (cqe_at m))))
   \<and> (fst (manual_poll_cq m wc) = 0 \<longrightarrow>
        fst (snd (manual_poll_cq m wc)) = m
        \<and> cq_cons_index (res (fst (snd (manual_poll_cq m wc)))) = cq_cons_index (res m)
        \<and> writes (fst (snd (manual_poll_cq m wc))) = writes m)"
  by (auto simp add: manual_poll_cq_def cqe_at_def Let_def wc_of_cqe_None split: option.splits
        dest: wc_of_cqe_Some_known)

theorem manual_poll_cq_empty_witness:
  "fst (manual_poll_cq (demo_machine (mk_cqe 0xf0 0 0 0)) wc_zero) = 0
   \<and> fst (snd (manual_poll_cq (demo_machine (mk_cqe 0xf0 0 0 0)) wc_zero))
       = demo_machine (mk_cqe 0xf0 0 0 0)
   \<and> fst (manual_poll_cq (demo_machine (mk_cqe 0x01 0 0 0)) wc_zero) = 0
   \<and> fst (snd (manual_poll_cq (demo_machine (mk_cqe 0x01 0 0 0)) wc_zero))
       = demo_machine (mk_cqe 0x01 0 0 0)
   \<and> fst (manual_poll_cq (demo_machine (mk_cqe 0x50 0 0 0)) wc_zero) = 0
   \<and> fst (snd (manual_poll_cq (demo_machine (mk_cqe 0x50 0 0 0)) wc_zero))
       = demo_machine (mk_cqe 0x50 0 0 0)"
proof -
  have a: "mlx5dv_get_cqe_opcode (cqe_at (demo_machine (mk_cqe 0xf0 0 0 0))) = MLX5_CQE_INVALID"
    by (simp add: cqe_at_def demo_defs mlx5dv_get_cqe_opcode_def MLX5_CQE_INVALID_def)
  have b: "mlx5dv_get_cqe_owner (cqe_at (demo_machine (mk_cqe 0x01 0 0 0)))
           \<noteq> expected_owner (cq_cons_index (res (demo_machine (mk_cqe 0x01 0 0 0))))
                (cqe_cnt (mlx5dv_cq (res (demo_machine (mk_cqe 0x01 0 0 0)))))"
    by (simp add: cqe_at_def demo_defs mlx5dv_get_cqe_owner_def expected_owner_def)
  have c: "\<not> known_cqe_opcode
               (mlx5dv_get_cqe_opcode (cqe_at (demo_machine (mk_cqe 0x50 0 0 0))))"
    by (simp add: cqe_at_def demo_defs mlx5dv_get_cqe_opcode_def known_cqe_opcode_def
        cqe_opcode_defs)
  from a b c
    manual_poll_cq_empty [of "demo_machine (mk_cqe 0xf0 0 0 0)" wc_zero]
    manual_poll_cq_empty [of "demo_machine (mk_cqe 0x01 0 0 0)" wc_zero]
    manual_poll_cq_empty [of "demo_machine (mk_cqe 0x50 0 0 0)" wc_zero]
  show ?thesis by blast
qed

section \<open>Polls that consume a record\<close>

text \<open>
  Claim C3. When the record in the slot is consumable and its opcode has a case in the
  switch, \<open>manual_poll_cq\<close> returns 1, the consumer index is the old one plus 1 (modulo
  \<open>2^32\<close>), and exactly one store is added: to \<open>dbrec[MLX5_CQ_SET_CI]\<close>, of the low
  24 bits of the new index with the most significant byte first (the first byte of the
  doorbell word is 0, then bits 23..16, 15..8 and 7..0 of the new index).
\<close>

theorem manual_poll_cq_advance:
  assumes "consumable m" and "known_cqe_opcode (mlx5dv_get_cqe_opcode (cqe_at m))"
  shows "case manual_poll_cq m wc of (rc, m', wc') \<Rightarrow>
           rc = 1
           \<and> cq_cons_index (res m') = cq_cons_index (res m) + 1
           \<and> writes m' = writes m @
                [W_dbrec (dbrec (mlx5dv_cq (res m)) + 4 * MLX5_CQ_SET_CI)
                         (htobe32 (cq_cons_index (res m') AND 0xffffff))]
           \<and> htobe32 (cq_cons_index (res m') AND 0xffffff)
               = Be32 0 (ucast (drop_bit 16 (cq_cons_index (res m'))))
                        (ucast (drop_bit 8 (cq_cons_index (res m'))))
                        (ucast (cq_cons_index (res m')))"
proof -
  from assms(2) obtain w where
    "wc_of_cqe (mlx5dv_get_cqe_opcode (cqe_at m)) (cqe_at m)
       (wc_zero\<lparr>qp_num := be32toh (sop_drop_qpn (cqe_at m)) AND 0xffffff,
                byte_len := be32toh (byte_cnt (cqe_at m))\<rparr>) = Some w"
    using wc_of_cqe_None by (metis option.exhaust)
  with assms(1) have "manual_poll_cq m wc = (1, consumed m, w)"
    by (rule manual_poll_cq_consume)
  then show ?thesis by (simp add: consumed_def htobe32_low24)
qed

theorem manual_poll_cq_advance_witness:
  "consumable (demo_machine (mk_cqe 0x00 0x080001d2 4 0))
   \<and> known_cqe_opcode
       (mlx5dv_get_cqe_opcode (cqe_at (demo_machine (mk_cqe 0x00 0x080001d2 4 0))))
   \<and> (case manual_poll_cq (demo_machine (mk_cqe 0x00 0x080001d2 4 0)) wc_zero of
         (rc, m', wc') \<Rightarrow>
           rc = 1 \<and> cq_cons_index (res m') = 1
           \<and> writes m' = [W_dbrec 0x20000 (Be32 0 0 0 1)])"
proof -
  have h1: "consumable (demo_machine (mk_cqe 0x00 0x080001d2 4 0))"
    by (simp add: poll_eval_defs demo_defs)
  have h2: "known_cqe_opcode
              (mlx5dv_get_cqe_opcode (cqe_at (demo_machine (mk_cqe 0x00 0x080001d2 4 0))))"
    by (simp add: poll_eval_defs demo_defs)
  have "cq_cons_index (res (demo_machine (mk_cqe 0x00 0x080001d2 4 0))) = 0"
    and "writes (demo_machine (mk_cqe 0x00 0x080001d2 4 0)) = []"
    and "dbrec (mlx5dv_cq (res (demo_machine (mk_cqe 0x00 0x080001d2 4 0)))) = 0x20000"
    by (simp_all add: demo_defs)
  with manual_poll_cq_advance [OF h1 h2, of wc_zero] h1 h2 show ?thesis
    by (auto simp add: MLX5_CQ_SET_CI_def split: prod.splits)
qed

text \<open>
  Claim C9. A consumable request completion (\<open>MLX5_CQE_REQ\<close>) whose work-request
  opcode, the high 8 bits of the queue field, is none of the six with a case label is
  not skipped: the call returns 1, the index advances by 1, the doorbell is written with
  the new index, and the completion reports success with opcode \<open>IBV_WC_SEND\<close> and no
  flag.
\<close>

theorem manual_poll_cq_unknown_request:
  assumes "consumable m"
    and "mlx5dv_get_cqe_opcode (cqe_at m) = MLX5_CQE_REQ"
    and "\<not> known_wr_opcode (drop_bit 24 (be32toh (sop_drop_qpn (cqe_at m))))"
  shows "case manual_poll_cq m wc of (rc, m', wc') \<Rightarrow>
           rc = 1
           \<and> cq_cons_index (res m') = cq_cons_index (res m) + 1
           \<and> writes m' = writes m @
                [W_dbrec (dbrec (mlx5dv_cq (res m)) + 4 * MLX5_CQ_SET_CI)
                         (htobe32 ((cq_cons_index (res m) + 1) AND 0xffffff))]
           \<and> status wc' = IBV_WC_SUCCESS
           \<and> opcode wc' = IBV_WC_SEND
           \<and> wc_flags wc' = {}"
proof -
  let ?wc1 = "wc_zero\<lparr>qp_num := be32toh (sop_drop_qpn (cqe_at m)) AND 0xffffff,
                       byte_len := be32toh (byte_cnt (cqe_at m))\<rparr>"
  have "wc_of_cqe (mlx5dv_get_cqe_opcode (cqe_at m)) (cqe_at m) ?wc1
        = Some (?wc1\<lparr>opcode := IBV_WC_SEND, status := IBV_WC_SUCCESS\<rparr>)"
    using assms(2,3) by (simp add: wc_of_cqe_def wc_of_req_default)
  with assms(1)
  have "manual_poll_cq m wc
        = (1, consumed m, ?wc1\<lparr>opcode := IBV_WC_SEND, status := IBV_WC_SUCCESS\<rparr>)"
    by (rule manual_poll_cq_consume)
  then show ?thesis by (simp add: consumed_def wc_zero_def)
qed

theorem manual_poll_cq_unknown_request_witness:
  "consumable (demo_machine (mk_cqe 0x00 0x110001d2 4 0))
   \<and> mlx5dv_get_cqe_opcode (cqe_at (demo_machine (mk_cqe 0x00 0x110001d2 4 0)))
       = MLX5_CQE_REQ
   \<and> \<not> known_wr_opcode (drop_bit 24 (be32toh (sop_drop_qpn
           (cqe_at (demo_machine (mk_cqe 0x00 0x110001d2 4 0))))))
   \<and> (case manual_poll_cq (demo_machine (mk_cqe 0x00 0x110001d2 4 0)) wc_zero of
         (rc, m', wc') \<Rightarrow>
           rc = 1 \<and> cq_cons_index (res m') = 1
           \<and> writes m' = [W_dbrec 0x20000 (htobe32 1)]
           \<and> status wc' = IBV_WC_SUCCESS \<and> opcode wc' = IBV_WC_SEND \<and> wc_flags wc' = {})"
proof -
  have h1: "consumable (demo_machine (mk_cqe 0x00 0x110001d2 4 0))"
    by (simp add: poll_eval_defs demo_defs)
  have h2: "mlx5dv_get_cqe_opcode (cqe_at (demo_machine (mk_cqe 0x00 0x110001d2 4 0)))
            = MLX5_CQE_REQ"
    by (simp add: poll_eval_defs demo_defs)
  have h3: "\<not> known_wr_opcode (drop_bit 24 (be32toh (sop_drop_qpn
              (cqe_at (demo_machine (mk_cqe 0x00 0x110001d2 4 0))))))"
    by (simp add: poll_eval_defs demo_defs)
  have "cq_cons_index (res (demo_machine (mk_cqe 0x00 0x110001d2 4 0))) = 0"
    and "writes (demo_machine (mk_cqe 0x00 0x110001d2 4 0)) = []"
    and "dbrec (mlx5dv_cq (res (demo_machine (mk_cqe 0x00 0x110001d2 4 0)))) = 0x20000"
    by (simp_all add: demo_defs)
  with manual_poll_cq_unknown_request [OF h1 h2 h3, of wc_zero] h1 h2 h3 show ?thesis
    by (auto simp add: MLX5_CQ_SET_CI_def split: prod.splits)
qed

section \<open>Error completions\<close>

text \<open>
  Claim C10. A consumable record whose opcode is \<open>MLX5_CQE_REQ_ERR\<close> or
  \<open>MLX5_CQE_RESP_ERR\<close> is consumed: the call returns 1, the consumer index advances by
  1 and the doorbell is written with the new index, which is the state \<open>consumed m\<close>
  that every consumed record leaves.
\<close>

theorem manual_poll_cq_error_advances:
  assumes "consumable m"
    and "mlx5dv_get_cqe_opcode (cqe_at m) = MLX5_CQE_REQ_ERR
         \<or> mlx5dv_get_cqe_opcode (cqe_at m) = MLX5_CQE_RESP_ERR"
  shows "case manual_poll_cq m wc of (rc, m', wc') \<Rightarrow>
           rc = 1
           \<and> m' = consumed m
           \<and> cq_cons_index (res m') = cq_cons_index (res m) + 1
           \<and> writes m' = writes m @
                [W_dbrec (dbrec (mlx5dv_cq (res m)) + 4 * MLX5_CQ_SET_CI)
                         (htobe32 ((cq_cons_index (res m) + 1) AND 0xffffff))]"
proof -
  let ?wc1 = "wc_zero\<lparr>qp_num := be32toh (sop_drop_qpn (cqe_at m)) AND 0xffffff,
                       byte_len := be32toh (byte_cnt (cqe_at m))\<rparr>"
  have "wc_of_cqe (mlx5dv_get_cqe_opcode (cqe_at m)) (cqe_at m) ?wc1
        = Some (?wc1\<lparr>status := IBV_WC_GENERAL_ERR\<rparr>)"
    using assms(2) by (rule wc_of_cqe_err)
  with assms(1)
  have "manual_poll_cq m wc = (1, consumed m, ?wc1\<lparr>status := IBV_WC_GENERAL_ERR\<rparr>)"
    by (rule manual_poll_cq_consume)
  then show ?thesis by (simp add: consumed_def)
qed

theorem manual_poll_cq_error_advances_witness:
  "consumable (demo_machine (mk_cqe 0xe0 0x0001d2 0 0))
   \<and> mlx5dv_get_cqe_opcode (cqe_at (demo_machine (mk_cqe 0xe0 0x0001d2 0 0)))
       = MLX5_CQE_RESP_ERR
   \<and> (case manual_poll_cq (demo_machine (mk_cqe 0xe0 0x0001d2 0 0)) wc_zero of
         (rc, m', wc') \<Rightarrow>
           rc = 1 \<and> cq_cons_index (res m') = 1
           \<and> writes m' = [W_dbrec 0x20000 (htobe32 1)])"
proof -
  have h1: "consumable (demo_machine (mk_cqe 0xe0 0x0001d2 0 0))"
    by (simp add: poll_eval_defs demo_defs)
  have h2: "mlx5dv_get_cqe_opcode (cqe_at (demo_machine (mk_cqe 0xe0 0x0001d2 0 0)))
            = MLX5_CQE_RESP_ERR"
    by (simp add: poll_eval_defs demo_defs)
  have "cq_cons_index (res (demo_machine (mk_cqe 0xe0 0x0001d2 0 0))) = 0"
    and "writes (demo_machine (mk_cqe 0xe0 0x0001d2 0 0)) = []"
    and "dbrec (mlx5dv_cq (res (demo_machine (mk_cqe 0xe0 0x0001d2 0 0)))) = 0x20000"
    by (simp_all add: demo_defs)
  with manual_poll_cq_error_advances [OF h1 disjI2 [OF h2], of wc_zero] h1 h2 show ?thesis
    by (auto simp add: MLX5_CQ_SET_CI_def split: prod.splits)
qed

text \<open>
  Claim C8, as the spec states it, fails for the transferred length: \<open>byte_len\<close> is set
  from the record before the switch, for every opcode. A request-error record with byte
  count 4 is returned with \<open>byte_len = 4\<close>, and one with byte count 7 with
  \<open>byte_len = 7\<close>.
\<close>

theorem manual_poll_cq_error_length_counterexample:
  "mlx5dv_get_cqe_opcode (mk_cqe 0xd0 0x0a0001d2 4 0) = MLX5_CQE_REQ_ERR
   \<and> fst (manual_poll_cq (demo_machine (mk_cqe 0xd0 0x0a0001d2 4 0)) wc_zero) = 1
   \<and> byte_len (snd (snd (manual_poll_cq (demo_machine (mk_cqe 0xd0 0x0a0001d2 4 0)) wc_zero)))
       = 4
   \<and> byte_len (snd (snd (manual_poll_cq (demo_machine (mk_cqe 0xd0 0x0a0001d2 7 0)) wc_zero)))
       = 7"
  by (simp add: poll_eval_defs demo_defs)

text \<open>
  Claim C8, amended. When the consumed record's opcode is request-error or
  response-error, the completion is marked as failed (\<open>IBV_WC_GENERAL_ERR\<close>) and the
  immediate is not decoded (\<open>imm_data\<close> stays 0 and no flag is set, whatever the
  record holds); the transferred length is the byte count of the record, as for every
  consumed record.
\<close>

theorem manual_poll_cq_error_decode:
  assumes "consumable m"
    and "mlx5dv_get_cqe_opcode (cqe_at m) = MLX5_CQE_REQ_ERR
         \<or> mlx5dv_get_cqe_opcode (cqe_at m) = MLX5_CQE_RESP_ERR"
  shows "case manual_poll_cq m wc of (rc, m', wc') \<Rightarrow>
           rc = 1
           \<and> status wc' = IBV_WC_GENERAL_ERR
           \<and> imm_data wc' = 0
           \<and> wc_flags wc' = {}
           \<and> byte_len wc' = be32toh (byte_cnt (cqe_at m))"
proof -
  let ?wc1 = "wc_zero\<lparr>qp_num := be32toh (sop_drop_qpn (cqe_at m)) AND 0xffffff,
                       byte_len := be32toh (byte_cnt (cqe_at m))\<rparr>"
  have "wc_of_cqe (mlx5dv_get_cqe_opcode (cqe_at m)) (cqe_at m) ?wc1
        = Some (?wc1\<lparr>status := IBV_WC_GENERAL_ERR\<rparr>)"
    using assms(2) by (rule wc_of_cqe_err)
  with assms(1)
  have "manual_poll_cq m wc = (1, consumed m, ?wc1\<lparr>status := IBV_WC_GENERAL_ERR\<rparr>)"
    by (rule manual_poll_cq_consume)
  then show ?thesis by (simp add: wc_zero_def)
qed

theorem manual_poll_cq_error_decode_witness:
  "consumable (demo_machine (mk_cqe 0xd0 0x0a0001d2 4 0x99))
   \<and> mlx5dv_get_cqe_opcode (cqe_at (demo_machine (mk_cqe 0xd0 0x0a0001d2 4 0x99)))
       = MLX5_CQE_REQ_ERR
   \<and> (case manual_poll_cq (demo_machine (mk_cqe 0xd0 0x0a0001d2 4 0x99)) wc_zero of
         (rc, m', wc') \<Rightarrow>
           rc = 1 \<and> status wc' = IBV_WC_GENERAL_ERR \<and> imm_data wc' = 0
           \<and> wc_flags wc' = {} \<and> byte_len wc' = 4)"
proof -
  have h1: "consumable (demo_machine (mk_cqe 0xd0 0x0a0001d2 4 0x99))"
    by (simp add: poll_eval_defs demo_defs)
  have h2: "mlx5dv_get_cqe_opcode (cqe_at (demo_machine (mk_cqe 0xd0 0x0a0001d2 4 0x99)))
            = MLX5_CQE_REQ_ERR"
    by (simp add: poll_eval_defs demo_defs)
  have "be32toh (byte_cnt (cqe_at (demo_machine (mk_cqe 0xd0 0x0a0001d2 4 0x99)))) = 4"
    by (simp add: cqe_at_def demo_defs be32toh_htobe32)
  with manual_poll_cq_error_decode [OF h1 disjI1 [OF h2], of wc_zero] h1 h2 show ?thesis
    by (auto split: prod.splits)
qed

section \<open>The slot of the completion record\<close>

lemma manual_poll_cq_reads_one_record:
  assumes "cq' (cqe64 (res m)) = cq_mem m (cqe64 (res m))"
  shows "manual_poll_cq (m\<lparr>cq_mem := cq'\<rparr>) wc
         = (case manual_poll_cq m wc of (rc, m', wc') \<Rightarrow> (rc, m'\<lparr>cq_mem := cq'\<rparr>, wc'))"
  using assms by (simp add: manual_poll_cq_def Let_def split: option.splits)

lemma wc_of_cqe_keeps:
  assumes "wc_of_cqe opc c wc = Some w"
  shows "qp_num w = qp_num wc \<and> byte_len w = byte_len wc"
  using assms
  by (auto simp add: wc_of_cqe_def wc_of_req_def Let_def split: if_splits)

lemma unat_ucast_u32_u64: "unat (ucast (x::u32) :: u64) = unat x"
proof -
  have "unat (ucast x :: u64) = take_bit LENGTH(64) (unat x)"
    by (simp add: unsigned_ucast_eq)
  also have "\<dots> = unat x"
    by (rule take_bit_nat_eq_self) (use unsigned_less [of x, where 'a = nat] in simp)
  finally show ?thesis .
qed

lemma slot_offset_plain:
  assumes p2: "is_pow2 cnt"
    and sz: "sz = 64 \<or> sz = 128"
    and fit: "unat cnt * unat sz \<le> 2 ^ 32"
  shows "unat ((idx AND (cnt - 1)) * sz) = (unat idx mod unat cnt) * unat sz
         \<and> (unat idx mod unat cnt) * unat sz + (if sz = 128 then 64 else 0)
             < unat cnt * unat sz"
proof -
  have cnz: "cnt \<noteq> 0" using p2 by (rule is_pow2_nonzero)
  then have cpos: "0 < unat cnt" by (simp add: unat_gt_0)
  have m: "unat (idx AND (cnt - 1)) = unat idx mod unat cnt"
    unfolding mask_is_mod [OF p2] by (rule unat_mod)
  have lt: "unat idx mod unat cnt < unat cnt" using cpos by simp
  then have "Suc (unat idx mod unat cnt) \<le> unat cnt" by simp
  then have le: "Suc (unat idx mod unat cnt) * unat sz \<le> unat cnt * unat sz"
    by (rule mult_le_mono1)
  have b: "(unat idx mod unat cnt) * unat sz + (if sz = 128 then 64 else 0) < unat cnt * unat sz"
    using le sz by auto
  then have "unat (idx AND (cnt - 1)) * unat sz < 2 ^ LENGTH(32)"
    using fit m by simp
  then have "unat ((idx AND (cnt - 1)) * sz) = unat (idx AND (cnt - 1)) * unat sz"
    by (simp only: unat_mult_lem)
  with m b show ?thesis by simp
qed

lemma record_addr_plain:
  assumes p2: "is_pow2 cnt"
    and sz: "sz = 64 \<or> sz = 128"
    and fit: "unat cnt * unat sz \<le> 2 ^ 32"
    and mem: "unat (base::u64) + unat cnt * unat sz \<le> 2 ^ 64"
  shows "unat (base + ucast ((idx AND (cnt - 1)) * sz) + (if sz = 128 then 64 else 0))
         = unat base + (unat idx mod unat cnt) * unat sz + (if sz = 128 then 64 else 0)"
proof -
  let ?p = "(unat idx mod unat cnt) * unat sz"
  let ?o = "if sz = 128 then 64 else (0::nat)"
  let ?ow = "if sz = 128 then 64 else (0::u64)"
  note s = slot_offset_plain [OF p2 sz fit, of idx]
  have off: "unat (ucast ((idx AND (cnt - 1)) * sz) :: u64) = ?p"
    using s by (simp add: unat_ucast_u32_u64)
  have ow: "unat ?ow = ?o" by simp
  have lt: "unat base + ?p + ?o < 2 ^ 64" using s mem by simp
  let ?y = "ucast ((idx AND (cnt - 1)) * sz) :: u64"
  have "unat base + unat ?y < 2 ^ LENGTH(64)" using lt off by simp
  then have "unat (base + ?y) = unat base + unat ?y" by (rule unat_add_lem [THEN iffD1])
  then have 1: "unat (base + ?y) = unat base + ?p" using off by simp
  have "unat (base + ?y) + unat ?ow < 2 ^ LENGTH(64)" using lt 1 ow by simp
  then have "unat (base + ?y + ?ow) = unat (base + ?y) + unat ?ow"
    by (rule unat_add_lem [THEN iffD1])
  with 1 ow show ?thesis by simp
qed

lemma cqe64_explicit:
  assumes "cqe_size (mlx5dv_cq r) = 64 \<or> cqe_size (mlx5dv_cq r) = 128"
  shows "cqe64 r = cq_buf (mlx5dv_cq r)
           + ucast ((cq_cons_index r AND (cqe_cnt (mlx5dv_cq r) - 1)) * cqe_size (mlx5dv_cq r))
           + (if cqe_size (mlx5dv_cq r) = 128 then 64 else 0)"
  using assms by (auto simp add: cqe64_def cqe_def cqe_idx_def)

text \<open>
  Claim C7. For entries of 64 or 128 bytes, what \<open>manual_poll_cq\<close> returns is decided
  by the completion record at the address
  \<open>buf + (cq_cons_index & (cqe_cnt - 1)) * cqe_size + off\<close>, where \<open>off\<close> is 64 when
  \<open>cqe_size\<close> is 128 and 0 when it is 64: the call returns 0 exactly when that record
  has the invalid opcode, the wrong ownership bit or an opcode without a case, and
  otherwise the queue number and the length it returns are decoded from that record. The
  product is the 32-bit one of the source; when \<open>cqe_cnt\<close> is a power of two and the
  ring (\<open>cqe_cnt * cqe_size\<close> bytes from \<open>buf\<close>) fits the 32-bit offset and the
  address space, the address read as a number is
  \<open>buf + (cq_cons_index mod cqe_cnt) * cqe_size + off\<close>.
\<close>

theorem manual_poll_cq_record_address:
  assumes "cqe_size (mlx5dv_cq (res m)) = 64 \<or> cqe_size (mlx5dv_cq (res m)) = 128"
  shows "let cq = mlx5dv_cq (res m);
             idx = cq_cons_index (res m);
             a = cq_buf cq + ucast ((idx AND (cqe_cnt cq - 1)) * cqe_size cq)
                   + (if cqe_size cq = 128 then 64 else 0);
             c = cq_mem m a;
             wc1 = wc_zero\<lparr>qp_num := be32toh (sop_drop_qpn c) AND 0xffffff,
                            byte_len := be32toh (byte_cnt c)\<rparr>
         in manual_poll_cq m wc =
              (if mlx5dv_get_cqe_opcode c = MLX5_CQE_INVALID
                  \<or> mlx5dv_get_cqe_owner c \<noteq> expected_owner idx (cqe_cnt cq)
               then (0, m, wc)
               else case wc_of_cqe (mlx5dv_get_cqe_opcode c) c wc1 of
                      None \<Rightarrow> (0, m, wc1)
                    | Some wc2 \<Rightarrow> (1, consumed m, wc2))
            \<and> ((fst (manual_poll_cq m wc) = 0) =
                  (mlx5dv_get_cqe_opcode c = MLX5_CQE_INVALID
                   \<or> mlx5dv_get_cqe_owner c \<noteq> expected_owner idx (cqe_cnt cq)
                   \<or> \<not> known_cqe_opcode (mlx5dv_get_cqe_opcode c)))
            \<and> (fst (manual_poll_cq m wc) \<noteq> 0 \<longrightarrow>
                  qp_num (snd (snd (manual_poll_cq m wc)))
                    = be32toh (sop_drop_qpn c) AND 0xffffff
                  \<and> byte_len (snd (snd (manual_poll_cq m wc))) = be32toh (byte_cnt c))
            \<and> (is_pow2 (cqe_cnt cq)
                 \<and> unat (cqe_cnt cq) * unat (cqe_size cq) \<le> 2 ^ 32
                 \<and> unat (cq_buf cq) + unat (cqe_cnt cq) * unat (cqe_size cq) \<le> 2 ^ 64
                \<longrightarrow> unat a = unat (cq_buf cq) + (unat idx mod unat (cqe_cnt cq)) * unat (cqe_size cq)
                             + (if cqe_size cq = 128 then 64 else 0))"
proof -
  let ?cq = "mlx5dv_cq (res m)"
  let ?idx = "cq_cons_index (res m)"
  define a where "a = cq_buf ?cq + ucast ((?idx AND (cqe_cnt ?cq - 1)) * cqe_size ?cq)
              + (if cqe_size ?cq = 128 then 64 else 0)"
  define c where "c = cq_mem m a"
  define wc1 where "wc1 = wc_zero\<lparr>qp_num := be32toh (sop_drop_qpn c) AND 0xffffff,
                                  byte_len := be32toh (byte_cnt c)\<rparr>"
  have addr: "cqe64 (res m) = a" unfolding a_def using assms by (rule cqe64_explicit)
  have out: "manual_poll_cq m wc =
              (if mlx5dv_get_cqe_opcode c = MLX5_CQE_INVALID
                  \<or> mlx5dv_get_cqe_owner c \<noteq> expected_owner ?idx (cqe_cnt ?cq)
               then (0, m, wc)
               else case wc_of_cqe (mlx5dv_get_cqe_opcode c) c wc1 of
                      None \<Rightarrow> (0, m, wc1)
                    | Some wc2 \<Rightarrow> (1, consumed m, wc2))"
    by (simp add: manual_poll_cq_def Let_def addr c_def [symmetric] wc1_def [symmetric]
        consumed_def split: option.splits)
  have zero: "(fst (manual_poll_cq m wc) = 0) =
                  (mlx5dv_get_cqe_opcode c = MLX5_CQE_INVALID
                   \<or> mlx5dv_get_cqe_owner c \<noteq> expected_owner ?idx (cqe_cnt ?cq)
                   \<or> \<not> known_cqe_opcode (mlx5dv_get_cqe_opcode c))"
    unfolding out
    by (auto simp add: wc_of_cqe_None split: option.splits dest: wc_of_cqe_Some_known)
  have dec: "fst (manual_poll_cq m wc) \<noteq> 0 \<longrightarrow>
                  qp_num (snd (snd (manual_poll_cq m wc))) = be32toh (sop_drop_qpn c) AND 0xffffff
                  \<and> byte_len (snd (snd (manual_poll_cq m wc))) = be32toh (byte_cnt c)"
    unfolding out
    by (auto simp add: wc1_def split: option.splits if_splits dest!: wc_of_cqe_keeps)
  have plain: "is_pow2 (cqe_cnt ?cq)
                 \<and> unat (cqe_cnt ?cq) * unat (cqe_size ?cq) \<le> 2 ^ 32
                 \<and> unat (cq_buf ?cq) + unat (cqe_cnt ?cq) * unat (cqe_size ?cq) \<le> 2 ^ 64
                \<longrightarrow> unat a = unat (cq_buf ?cq)
                             + (unat ?idx mod unat (cqe_cnt ?cq)) * unat (cqe_size ?cq)
                             + (if cqe_size ?cq = 128 then 64 else 0)"
    unfolding a_def using record_addr_plain [OF _ assms, where base = "cq_buf ?cq" and idx = ?idx] by blast
  from out zero dec plain show ?thesis
    unfolding Let_def wc1_def c_def a_def by blast
qed

theorem manual_poll_cq_record_address_witness:
  "cqe_size (mlx5dv_cq (res (demo_machine128 (mk_cqe 0x01 0x080001d2 4 0)))) = 128
   \<and> is_pow2 (cqe_cnt (mlx5dv_cq (res (demo_machine128 (mk_cqe 0x01 0x080001d2 4 0)))))
   \<and> cq_mem (demo_machine128 (mk_cqe 0x01 0x080001d2 4 0)) 0x100c0 = mk_cqe 0x01 0x080001d2 4 0
   \<and> cq_mem (demo_machine128 (mk_cqe 0x01 0x080001d2 4 0)) 0x10080 = mk_cqe 0xf0 0 0 0
   \<and> fst (manual_poll_cq (demo_machine128 (mk_cqe 0x01 0x080001d2 4 0)) wc_zero) \<noteq> 0
   \<and> qp_num (snd (snd (manual_poll_cq (demo_machine128 (mk_cqe 0x01 0x080001d2 4 0)) wc_zero)))
       = 0x1d2
   \<and> byte_len (snd (snd (manual_poll_cq (demo_machine128 (mk_cqe 0x01 0x080001d2 4 0)) wc_zero)))
       = 4
   \<and> unat (cqe_cnt (mlx5dv_cq (res (demo_machine128 (mk_cqe 0x01 0x080001d2 4 0)))))
         * unat (cqe_size (mlx5dv_cq (res (demo_machine128 (mk_cqe 0x01 0x080001d2 4 0)))))
       \<le> 2 ^ 32
   \<and> unat (cq_buf (mlx5dv_cq (res (demo_machine128 (mk_cqe 0x01 0x080001d2 4 0)))))
         + unat (cqe_cnt (mlx5dv_cq (res (demo_machine128 (mk_cqe 0x01 0x080001d2 4 0)))))
           * unat (cqe_size (mlx5dv_cq (res (demo_machine128 (mk_cqe 0x01 0x080001d2 4 0)))))
       \<le> 2 ^ 64
   \<and> unat (0x100c0 :: u64) = 0x10000 + (5 mod 4) * 128 + 64"
proof -
  let ?M = "demo_machine128 (mk_cqe 0x01 0x080001d2 4 0)"
  have h: "cqe_size (mlx5dv_cq (res ?M)) = 64 \<or> cqe_size (mlx5dv_cq (res ?M)) = 128"
    by (simp add: demo_machine128_def demo_defs)
  have s: "cqe_size (mlx5dv_cq (res ?M)) = 128" "cqe_cnt (mlx5dv_cq (res ?M)) = 4"
    "cq_buf (mlx5dv_cq (res ?M)) = 0x10000" "cq_cons_index (res ?M) = 5"
    by (simp_all add: demo_machine128_def demo_defs)
  have p: "is_pow2 (cqe_cnt (mlx5dv_cq (res ?M)))"
    unfolding s using is_pow2_exp [of 2] by simp
  have a: "(0x10000 :: u64) + ucast (((5::u32) AND (4 - 1)) * 128) + 64 = 0x100c0" by simp
  have c: "cq_mem ?M 0x100c0 = mk_cqe 0x01 0x080001d2 4 0"
    "cq_mem ?M 0x10080 = mk_cqe 0xf0 0 0 0"
    by (simp_all add: demo_machine128_def)
  have d: "be32toh (sop_drop_qpn (mk_cqe 0x01 0x080001d2 4 0)) AND 0xffffff = 0x1d2"
    "be32toh (byte_cnt (mk_cqe 0x01 0x080001d2 4 0)) = 4"
    "mlx5dv_get_cqe_opcode (mk_cqe 0x01 0x080001d2 4 0) \<noteq> MLX5_CQE_INVALID"
    "mlx5dv_get_cqe_owner (mk_cqe 0x01 0x080001d2 4 0) = expected_owner 5 4"
    "known_cqe_opcode (mlx5dv_get_cqe_opcode (mk_cqe 0x01 0x080001d2 4 0))"
    by (simp_all add: mk_cqe_def be32toh_htobe32 mlx5dv_get_cqe_opcode_def
        mlx5dv_get_cqe_owner_def expected_owner_def known_cqe_opcode_def cqe_opcode_defs)
  have f: "unat (cqe_cnt (mlx5dv_cq (res ?M))) * unat (cqe_size (mlx5dv_cq (res ?M))) \<le> 2 ^ 32"
    "unat (cq_buf (mlx5dv_cq (res ?M)))
       + unat (cqe_cnt (mlx5dv_cq (res ?M))) * unat (cqe_size (mlx5dv_cq (res ?M))) \<le> 2 ^ 64"
    by (simp_all add: s)
  note t = manual_poll_cq_record_address [OF h, of wc_zero, unfolded Let_def]
  have e: "unat (0x100c0 :: u64) = 0x10000 + (5 mod 4) * 128 + 64"
    using t [THEN conjunct2, THEN conjunct2, THEN conjunct2] p f by (simp add: s)
  have z: "fst (manual_poll_cq ?M wc_zero) \<noteq> 0"
    using t [THEN conjunct2, THEN conjunct1] by (simp add: s c d)
  have q: "qp_num (snd (snd (manual_poll_cq ?M wc_zero))) = 0x1d2
           \<and> byte_len (snd (snd (manual_poll_cq ?M wc_zero))) = 4"
    using t [THEN conjunct2, THEN conjunct2, THEN conjunct1] z by (simp add: s c d)
  from z q s(1) p c f e show ?thesis by simp
qed

section \<open>The posted descriptor\<close>

lemma byte_of_u64_bit:
  "bit (push_bit s (ucast (ucast (drop_bit s (x::u64)) :: u8)) :: u64) n
     = (s \<le> n \<and> n < s + 8 \<and> n < 64 \<and> bit x n)"
  by (auto simp add: bit_simps)

lemma low_byte_of_u64_bit:
  "bit (ucast (ucast (x::u64) :: u8) :: u64) n = (n < 8 \<and> bit x n)"
  by (auto simp add: bit_simps dest: bit_imp_le_length)

lemma be64toh_htobe64: "be64toh (htobe64 x) = x"
proof (rule bit_word_eqI)
  fix n assume n: "n < LENGTH(64)"
  show "bit (be64toh (htobe64 x)) n = bit x n"
  proof (cases "bit x n")
    case False
    then show ?thesis
      by (simp add: htobe64_def bit_or_iff byte_of_u64_bit low_byte_of_u64_bit)
  next
    case True
    have "n < 8 \<or> (8 \<le> n \<and> n < 8 + 8) \<or> (16 \<le> n \<and> n < 16 + 8) \<or> (24 \<le> n \<and> n < 24 + 8)
        \<or> (32 \<le> n \<and> n < 32 + 8) \<or> (40 \<le> n \<and> n < 40 + 8) \<or> (48 \<le> n \<and> n < 48 + 8)
        \<or> (56 \<le> n \<and> n < 56 + 8)"
      using n by simp arith
    moreover have "n < 64" using n by simp
    ultimately show ?thesis
      using True
      unfolding htobe64_def be64toh.simps bit_or_iff byte_of_u64_bit low_byte_of_u64_bit
      by blast
  qed
qed

lemma local_write_post_Inr:
  assumes "bf_reg (mlx5dv_qp (res m)) \<noteq> 0" and "bf_size (mlx5dv_qp (res m)) \<noteq> 0"
    and "sq_wqe_cnt (mlx5dv_qp (res m)) \<noteq> 0"
  shows "local_write_post m =
     Inr (m\<lparr>res := (res m)\<lparr>sq_cur_post := sq_cur_post (res m) + 1,
                bf_offset := bf_offset (res m) XOR bf_size (mlx5dv_qp (res m))\<rparr>,
            writes := writes m @
              [W_ctrl (wqe (res m))
                 (mlx5dv_set_ctrl_seg (ucast (sq_cur_post (res m) AND 0xffff))
                    (ucast MLX5_OPCODE_RDMA_WRITE) 0 (qpn (res m)) MLX5_WQE_CTRL_CQ_UPDATE 3 0 0),
               W_raddr (wqe (res m) + 16)
                 \<lparr>raddr = htobe64 (buf (res m) + 4), rkey = htobe32 (mr_rkey (res m)),
                  reserved = htobe32 0\<rparr>,
               W_data (wqe (res m) + 32)
                 (mlx5dv_set_data_seg 4 (mr_lkey (res m)) (buf (res m))),
               W_bf (bf_reg (mlx5dv_qp (res m)) + ucast (bf_offset (res m)))
                 (htobe32 (push_bit 8 (ucast (ucast (sq_cur_post (res m) AND 0xffff) :: u16))
                           OR ucast (ucast MLX5_OPCODE_RDMA_WRITE :: u8)))
                 (htobe32 (push_bit 8 (qpn (res m)) OR 3))]\<rparr>)"
  using assms
  by (simp add: local_write_post_def Let_def sizeof_ctrl_seg_def sizeof_raddr_seg_def
      sizeof_data_seg_def mlx5dv_set_ctrl_seg_def)

lemma ds_decode: "be32toh (htobe32 (push_bit 8 (q::u32) OR 3)) AND 0xff = 3"
proof -
  have m: "(0xff :: u32) = mask 8" by (simp add: mask_eq_exp_minus_1)
  have z: "push_bit 8 q AND mask 8 = (0::u32)"
    by (rule bit_word_eqI) (auto simp add: bit_simps)
  have "(push_bit 8 q OR 3) AND mask 8 = (push_bit 8 q AND mask 8) OR (3 AND mask 8)"
    by (rule bit.conj_disj_distrib2)
  also have "\<dots> = (3::u32)" unfolding z by (simp add: mask_eq_exp_minus_1)
  finally show ?thesis by (simp add: be32toh_htobe32 m)
qed

text \<open>
  Claim C4. When the device has a BlueFlame register and the send ring is not empty,
  \<open>local_write\<close> posts: it writes the control, remote-address and data segments one
  after the other at the slot and stores the first 8 bytes of the control segment to the
  trigger register. The \<open>ds\<close> field decoded from the control segment is the total size
  of the three segments divided by 16, which is 3; the remote address is stored
  big-endian and decodes to the host-order address \<open>buf + 4\<close>; and the completion-request
  flag \<open>MLX5_WQE_CTRL_CQ_UPDATE\<close> is set in \<open>fm_ce_se\<close>.
\<close>

theorem local_write_descriptor:
  assumes "bf_reg (mlx5dv_qp (res m)) \<noteq> 0" and "bf_size (mlx5dv_qp (res m)) \<noteq> 0"
    and "sq_wqe_cnt (mlx5dv_qp (res m)) \<noteq> 0"
  shows "\<exists>m' c r d t.
           local_write_post m = Inr m'
           \<and> writes m' = writes m @
                [W_ctrl (wqe (res m)) c, W_raddr (wqe (res m) + sizeof_ctrl_seg) r,
                 W_data (wqe (res m) + sizeof_ctrl_seg + sizeof_raddr_seg) d,
                 W_bf t (opmod_idx_opcode c) (qpn_ds c)]
           \<and> unat (be32toh (qpn_ds c) AND 0xff)
               = (unat sizeof_ctrl_seg + unat sizeof_raddr_seg + unat sizeof_data_seg) div 16
           \<and> unat (be32toh (qpn_ds c) AND 0xff) = 3
           \<and> raddr r = htobe64 (buf (res m) + 4)
           \<and> be64toh (raddr r) = buf (res m) + 4
           \<and> fm_ce_se c AND MLX5_WQE_CTRL_CQ_UPDATE = MLX5_WQE_CTRL_CQ_UPDATE
           \<and> MLX5_WQE_CTRL_CQ_UPDATE \<noteq> 0"
  unfolding local_write_post_Inr [OF assms]
  by (simp add: be64toh_htobe64 mlx5dv_set_ctrl_seg_def ds_decode sizeof_ctrl_seg_def
      sizeof_raddr_seg_def sizeof_data_seg_def MLX5_WQE_CTRL_CQ_UPDATE_def)

theorem local_write_descriptor_witness:
  "bf_reg (mlx5dv_qp (res (demo_machine (mk_cqe 0xf0 0 0 0)))) \<noteq> 0
   \<and> bf_size (mlx5dv_qp (res (demo_machine (mk_cqe 0xf0 0 0 0)))) \<noteq> 0
   \<and> sq_wqe_cnt (mlx5dv_qp (res (demo_machine (mk_cqe 0xf0 0 0 0)))) \<noteq> 0
   \<and> (\<exists>m' c r d t.
         local_write_post (demo_machine (mk_cqe 0xf0 0 0 0)) = Inr m'
         \<and> writes m' = [W_ctrl 0x30000 c, W_raddr 0x30010 r, W_data 0x30020 d,
                         W_bf t (opmod_idx_opcode c) (qpn_ds c)]
         \<and> unat (be32toh (qpn_ds c) AND 0xff) = 3
         \<and> be64toh (raddr r) = 0x50004
         \<and> fm_ce_se c AND MLX5_WQE_CTRL_CQ_UPDATE = MLX5_WQE_CTRL_CQ_UPDATE)"
proof -
  let ?M = "demo_machine (mk_cqe 0xf0 0 0 0)"
  have h1: "bf_reg (mlx5dv_qp (res ?M)) \<noteq> 0" by (simp add: demo_defs)
  have h2: "bf_size (mlx5dv_qp (res ?M)) \<noteq> 0" by (simp add: demo_defs)
  have h3: "sq_wqe_cnt (mlx5dv_qp (res ?M)) \<noteq> 0" by (simp add: demo_defs)
  have w: "wqe (res ?M) = 0x30000" "writes ?M = []" "buf (res ?M) = 0x50000"
    by (simp_all add: demo_defs wqe_def wqe_idx_def)
  from local_write_descriptor [OF h1 h2 h3] h1 h2 h3 show ?thesis
    unfolding w by (simp add: sizeof_ctrl_seg_def sizeof_raddr_seg_def) blast
qed

section \<open>The slot of the send ring\<close>

text \<open>
  Claim C6. When \<open>wqe_cnt\<close> is a power of two, the slot index of the poster,
  \<open>sq_cur_post % wqe_cnt\<close>, is \<open>sq_cur_post & (wqe_cnt - 1)\<close> for every value of the
  32-bit producer index; read as numbers it is the producer index modulo \<open>wqe_cnt\<close>
  and so below \<open>wqe_cnt\<close>, and the slot address is computed from it.
\<close>

theorem wqe_idx_mask:
  assumes "is_pow2 (sq_wqe_cnt (mlx5dv_qp r))"
  shows "wqe_idx r = sq_cur_post r AND (sq_wqe_cnt (mlx5dv_qp r) - 1)
         \<and> unat (wqe_idx r) = unat (sq_cur_post r) mod unat (sq_wqe_cnt (mlx5dv_qp r))
         \<and> unat (wqe_idx r) < unat (sq_wqe_cnt (mlx5dv_qp r))
         \<and> wqe r = sq_buf (mlx5dv_qp r)
               + ucast ((sq_cur_post r AND (sq_wqe_cnt (mlx5dv_qp r) - 1))
                        * sq_stride (mlx5dv_qp r))"
proof -
  let ?n = "sq_wqe_cnt (mlx5dv_qp r)"
  have 1: "wqe_idx r = sq_cur_post r AND (?n - 1)"
    unfolding wqe_idx_def by (rule mask_is_mod [OF assms, symmetric])
  have 2: "unat (wqe_idx r) = unat (sq_cur_post r) mod unat ?n"
    unfolding wqe_idx_def by (rule unat_mod)
  have "?n \<noteq> 0" using assms by (rule is_pow2_nonzero)
  then have "0 < unat ?n" by (simp add: unat_gt_0)
  then have 3: "unat (wqe_idx r) < unat ?n" unfolding 2 by simp
  have 4: "wqe r = sq_buf (mlx5dv_qp r)
             + ucast ((sq_cur_post r AND (?n - 1)) * sq_stride (mlx5dv_qp r))"
    unfolding wqe_def 1 ..
  from 1 2 3 4 show ?thesis by blast
qed

theorem wqe_idx_mask_witness:
  "is_pow2 (sq_wqe_cnt (mlx5dv_qp (demo_res\<lparr>sq_cur_post := 6\<rparr>)))
   \<and> wqe_idx (demo_res\<lparr>sq_cur_post := 6\<rparr>) = 2
   \<and> (6::u32) AND (4 - 1) = 2
   \<and> wqe (demo_res\<lparr>sq_cur_post := 6\<rparr>) = 0x30080"
proof -
  have h: "is_pow2 (sq_wqe_cnt (mlx5dv_qp (demo_res\<lparr>sq_cur_post := 6\<rparr>)))"
    using is_pow2_exp [of 2] by (simp add: demo_defs)
  from wqe_idx_mask [OF h] h show ?thesis by (simp add: demo_defs)
qed

section \<open>Alternation of the trigger offset\<close>

lemma ucast_u32_u64_zero:
  assumes "(ucast (x::u32) :: u64) = 0"
  shows "x = 0"
proof -
  have "x = ucast (ucast x :: u64)" by (simp add: ucast_up_ucast_id is_up)
  with assms show ?thesis by simp
qed

lemma bf_addrs_append: "bf_addrs (xs @ ys) = bf_addrs xs @ bf_addrs ys"
  by (induction xs rule: bf_addrs.induct) simp_all

lemma manual_poll_cq_frame:
  "mlx5dv_qp (res (fst (snd (manual_poll_cq m wc)))) = mlx5dv_qp (res m)
   \<and> bf_offset (res (fst (snd (manual_poll_cq m wc)))) = bf_offset (res m)
   \<and> sq_cur_post (res (fst (snd (manual_poll_cq m wc)))) = sq_cur_post (res m)
   \<and> bf_addrs (writes (fst (snd (manual_poll_cq m wc)))) = bf_addrs (writes m)"
  by (simp add: manual_poll_cq_def Let_def bf_addrs_append split: option.splits)

lemma alternating_poll:
  assumes "alternating r0 m n"
  shows "alternating r0 (fst (snd (manual_poll_cq (m\<lparr>cq_mem := cq\<rparr>) wc))) n"
  using assms manual_poll_cq_frame [of "m\<lparr>cq_mem := cq\<rparr>" wc]
  by (simp add: alternating_def)

lemma xor_flip_neq:
  assumes "(s::u32) \<noteq> 0"
  shows "x XOR s \<noteq> x"
proof
  assume "x XOR s = x"
  then have "x XOR (x XOR s) = 0" by simp
  then have "s = 0" by (simp add: xor.assoc [symmetric])
  with assms show False by simp
qed

lemma local_write_post_flip:
  assumes "local_write_post m = Inr m'"
  shows "bf_size (mlx5dv_qp (res m)) \<noteq> 0
         \<and> mlx5dv_qp (res m') = mlx5dv_qp (res m)
         \<and> bf_offset (res m') = bf_offset (res m) XOR bf_size (mlx5dv_qp (res m))
         \<and> bf_addrs (writes m')
             = bf_addrs (writes m) @ [bf_reg (mlx5dv_qp (res m)) + ucast (bf_offset (res m))]"
  using assms
  by (auto simp add: local_write_post_def Let_def bf_addrs_append split: if_splits)

lemma alternating_post:
  assumes "alternating r0 m n" and "local_write_post m = Inr m'"
  shows "alternating r0 m' (Suc n)"
proof -
  from assms(1) have qp: "mlx5dv_qp (res m) = mlx5dv_qp r0"
    and tr: "bf_addrs (writes m) = map (trigger_addr r0) [0..<n]"
    and off: "bf_offset (res m) = (if even n then 0 else bf_size (mlx5dv_qp r0))"
    by (simp_all add: alternating_def)
  note f = local_write_post_flip [OF assms(2)]
  have a: "bf_reg (mlx5dv_qp (res m)) + ucast (bf_offset (res m)) = trigger_addr r0 n"
    using qp off by (simp add: trigger_addr_def)
  have "bf_addrs (writes m') = map (trigger_addr r0) [0..<Suc n]"
    using f tr a by simp
  moreover have "bf_offset (res m') = (if even (Suc n) then 0 else bf_size (mlx5dv_qp r0))"
    using f off qp by simp
  ultimately show ?thesis using f qp by (simp add: alternating_def)
qed

lemma alternating_run:
  assumes "bf_reg (mlx5dv_qp r0) \<noteq> 0" and "bf_size (mlx5dv_qp r0) \<noteq> 0"
    and "sq_wqe_cnt (mlx5dv_qp r0) \<noteq> 0"
  shows "alternating r0 m n \<Longrightarrow> \<exists>m'. run steps m = Inr m' \<and> alternating r0 m' (n + posts steps)"
proof (induction steps arbitrary: m n)
  case Nil
  then show ?case by simp
next
  case (Cons s steps)
  show ?case
  proof (cases s)
    case Post
    from Cons.prems have qp: "mlx5dv_qp (res m) = mlx5dv_qp r0" by (simp add: alternating_def)
    with assms obtain m1 where m1: "local_write_post m = Inr m1"
      using local_write_post_Inr [of m] by simp
    with Cons.prems have "alternating r0 m1 (Suc n)" by (rule alternating_post)
    from Cons.IH [OF this] m1 Post show ?thesis by simp
  next
    case (Poll cq wc)
    from Cons.prems have "alternating r0 (fst (snd (manual_poll_cq (m\<lparr>cq_mem := cq\<rparr>) wc))) n"
      by (rule alternating_poll)
    from Cons.IH [OF this] Poll show ?thesis by simp
  qed
qed

lemma trigger_addr_Suc:
  assumes "bf_size (mlx5dv_qp r) \<noteq> 0"
  shows "trigger_addr r i \<noteq> trigger_addr r (Suc i)"
  using assms ucast_u32_u64_zero [of "bf_size (mlx5dv_qp r)"]
  by (auto simp add: trigger_addr_def)

text \<open>
  Claim C5. Every post flips \<open>bf_offset\<close> by exclusive-or with \<open>bf.size\<close>, which
  changes it. In a run that starts with \<open>bf_offset = 0\<close> on a device with a BlueFlame
  register, every post succeeds and the trigger stores go, in order, to \<open>bf.reg\<close>,
  \<open>bf.reg + bf.size\<close>, \<open>bf.reg\<close>, ...: one store per post, at offset 0 for the posts
  numbered 0, 2, 4, ... and at offset \<open>bf.size\<close> for the others, whatever polls come
  between them, so two consecutive posts never store at the same address.
\<close>

theorem trigger_offsets_alternate:
  assumes "bf_offset (res m) = 0" and "bf_addrs (writes m) = []"
    and "bf_reg (mlx5dv_qp (res m)) \<noteq> 0" and "bf_size (mlx5dv_qp (res m)) \<noteq> 0"
    and "sq_wqe_cnt (mlx5dv_qp (res m)) \<noteq> 0"
  shows "(\<exists>m'. run steps m = Inr m'
            \<and> bf_addrs (writes m') = map (trigger_addr (res m)) [0..<posts steps]
            \<and> (\<forall>i. Suc i < posts steps \<longrightarrow>
                  bf_addrs (writes m') ! i \<noteq> bf_addrs (writes m') ! Suc i))
         \<and> (\<forall>m1 m2. local_write_post m1 = Inr m2 \<longrightarrow>
              bf_offset (res m2) = bf_offset (res m1) XOR bf_size (mlx5dv_qp (res m1))
              \<and> bf_offset (res m2) \<noteq> bf_offset (res m1))"
proof -
  have "alternating (res m) m 0" using assms(1,2) by (simp add: alternating_def)
  from alternating_run [OF assms(3,4,5) this, of steps]
  obtain m' where r: "run steps m = Inr m'" and alt: "alternating (res m) m' (posts steps)"
    by auto
  from alt have ts: "bf_addrs (writes m') = map (trigger_addr (res m)) [0..<posts steps]"
    by (simp add: alternating_def)
  have d: "\<forall>i. Suc i < posts steps \<longrightarrow>
             bf_addrs (writes m') ! i \<noteq> bf_addrs (writes m') ! Suc i"
  proof (intro allI impI)
    fix i assume i: "Suc i < posts steps"
    have "trigger_addr (res m) i \<noteq> trigger_addr (res m) (Suc i)"
      using assms(4) by (rule trigger_addr_Suc)
    with i show "bf_addrs (writes m') ! i \<noteq> bf_addrs (writes m') ! Suc i"
      unfolding ts by simp
  qed
  have f: "\<forall>m1 m2. local_write_post m1 = Inr m2 \<longrightarrow>
              bf_offset (res m2) = bf_offset (res m1) XOR bf_size (mlx5dv_qp (res m1))
              \<and> bf_offset (res m2) \<noteq> bf_offset (res m1)"
  proof (intro allI impI)
    fix m1 m2 assume "local_write_post m1 = Inr m2"
    from local_write_post_flip [OF this] xor_flip_neq
    show "bf_offset (res m2) = bf_offset (res m1) XOR bf_size (mlx5dv_qp (res m1))
          \<and> bf_offset (res m2) \<noteq> bf_offset (res m1)" by simp
  qed
  from r ts d f show ?thesis by blast
qed

theorem trigger_offsets_alternate_witness:
  "bf_offset (res (demo_machine (mk_cqe 0x00 0x080001d2 4 0))) = 0
   \<and> bf_addrs (writes (demo_machine (mk_cqe 0x00 0x080001d2 4 0))) = []
   \<and> bf_reg (mlx5dv_qp (res (demo_machine (mk_cqe 0x00 0x080001d2 4 0)))) \<noteq> 0
   \<and> bf_size (mlx5dv_qp (res (demo_machine (mk_cqe 0x00 0x080001d2 4 0)))) \<noteq> 0
   \<and> sq_wqe_cnt (mlx5dv_qp (res (demo_machine (mk_cqe 0x00 0x080001d2 4 0)))) \<noteq> 0
   \<and> (\<exists>m'. run [Post, Poll (\<lambda>a. mk_cqe 0x00 0x080001d2 4 0) wc_zero, Post, Post]
               (demo_machine (mk_cqe 0x00 0x080001d2 4 0)) = Inr m'
          \<and> bf_addrs (writes m') = [0x40000, 0x40100, 0x40000])"
proof -
  let ?M = "demo_machine (mk_cqe 0x00 0x080001d2 4 0)"
  let ?steps = "[Post, Poll (\<lambda>a. mk_cqe 0x00 0x080001d2 4 0) wc_zero, Post, Post]"
  have h1: "bf_offset (res ?M) = 0" by (simp add: demo_defs)
  have h2: "bf_addrs (writes ?M) = []" by (simp add: demo_defs)
  have h3: "bf_reg (mlx5dv_qp (res ?M)) \<noteq> 0" by (simp add: demo_defs)
  have h4: "bf_size (mlx5dv_qp (res ?M)) \<noteq> 0" by (simp add: demo_defs)
  have h5: "sq_wqe_cnt (mlx5dv_qp (res ?M)) \<noteq> 0" by (simp add: demo_defs)
  have p: "posts ?steps = 3" by simp
  have u: "[0..<3] = [0, 1, 2]" by (simp add: upt_rec)
  have t: "map (trigger_addr (res ?M)) [0..<3] = [0x40000, 0x40100, 0x40000]"
    unfolding u by (simp add: trigger_addr_def demo_defs)
  from trigger_offsets_alternate [OF h1 h2 h3 h4 h5, of ?steps] h1 h2 h3 h4 h5
  show ?thesis unfolding p t by blast
qed

end
